theory Spec2Isabelle
  imports Main "HOL-Library.Word"
begin

section \<open>The JNI boundary adapter of rulestone (wrapper.c)\<close>

text \<open>
  The adapter consists of three JNI entry points.  Each one calls a primitive of the
  native rule engine (\<open>NewRuleEngine\<close>, \<open>Match\<close>, \<open>GetRuleMetadata\<close>, declared in the
  generated header \<open>librulestone-go.h\<close>), converts the result into objects of the Java
  host through the function table \<open>JNIEnv\<close>, and calls \<open>free\<close> of the C library on
  what the engine handed over.

  The embedding keeps two stores apart: the C heap, on which the engine allocates and
  the adapter frees, and the heap of the Java host.  Every operation is a function
  from the state to either a fault (behaviour that C or JNI leave undefined) or a
  result and the next state.
\<close>

subsection \<open>C data\<close>

type_synonym addr = nat

text \<open>A C pointer: \<open>None\<close> is \<open>NULL\<close>, \<open>Some a\<close> the base address of an allocation.\<close>
type_synonym ptr = "addr option"

text \<open>\<open>int\<close> of C and \<open>jint\<close>, \<open>jsize\<close> of JNI: 32 bits, read as two's complement by \<open>sint\<close>.\<close>
type_synonym cint = "32 word"

text \<open>
  One allocation of the C heap.  The struct types come from the generated header;
  the adapter uses them as \<open>matches->matches\<close> (an \<open>int *\<close>), \<open>matches->len\<close>,
  \<open>metadata->metadata\<close> (a \<open>char **\<close>) and \<open>metadata->size\<close>.  The engine returns
  a \<open>Matches *\<close> and a \<open>Metadata *\<close>, so a struct is an allocation of its own, apart
  from the buffer or array its first field points to; an address is the base of an
  allocation, which is what \<open>free\<close> takes.
\<close>
datatype cell =
    MatchesStruct ptr cint
  | IntArr "cint list"
  | MetadataStruct ptr cint
  | PtrArr "ptr list"
  | CString string

type_synonym cheap = "addr \<Rightarrow> cell option"

subsection \<open>Host data\<close>

type_synonym jref = nat

text \<open>
  A JNI reference (\<open>jobject\<close>, \<open>jstring\<close>, \<open>jintArray\<close>).  Java strings are immutable,
  so a string reference is represented by the string it refers to, and the string by
  the bytes in which JNI exchanges it with C: \<open>JString bs\<close> is the Java string that the
  JVM builds from the bytes \<open>bs\<close>, which it reads as modified UTF-8.  Which characters
  that string has is a matter of decoding (\<open>host_chars\<close> below); the bytes alone say
  nothing about it.
\<close>
datatype jvalue = JNull | JString string | JObject jref

datatype jobj =
    JIntArray "cint list"
  | JHashMap "jvalue \<Rightarrow> jvalue option"
  | JRuleMetadata jvalue

type_synonym jclass = "string option"
type_synonym jmethodID = "(string \<times> string \<times> string) option"

subsection \<open>State, faults and sequencing\<close>

text \<open>
  \<open>Copied p\<close>: a JNI function has copied the contents of the C allocation \<open>p\<close> into a
  host object.  \<open>Freed a\<close>: \<open>free\<close> has released the allocation \<open>a\<close>.
\<close>
datatype event = Copied ptr | Freed addr

datatype fault =
    NullDereference
  | InvalidRead
  | InvalidFree
  | SignedOverflow
  | JniMisuse

text \<open>
  \<open>nheap\<close>: the live allocations of the C heap.
  \<open>jheap\<close>, \<open>jnext\<close>: the mutable objects of the host and the next unused reference.
  \<open>plan\<close>: the outcomes of the coming host allocations, \<open>False\<close> for one that fails
  with an \<open>OutOfMemoryError\<close>; once the list is used up every allocation succeeds.
  \<open>pending\<close>: an exception is pending in the calling thread.
  \<open>views\<close>: the character buffers handed out by \<open>GetStringUTFChars\<close> and not yet
  released.
  \<open>trace\<close>: the copies and frees performed so far, oldest first.
\<close>
record world =
  nheap :: cheap
  jheap :: "jref \<Rightarrow> jobj option"
  jnext :: jref
  plan :: "bool list"
  pending :: bool
  views :: "string list"
  trace :: "event list"

type_synonym 'a exec = "world \<Rightarrow> fault + ('a \<times> world)"

definition ret :: "'a \<Rightarrow> 'a exec" where
  "ret x s = Inr (x, s)"

definition seq :: "'a exec \<Rightarrow> ('a \<Rightarrow> 'b exec) \<Rightarrow> 'b exec" where
  "seq m f s = (case m s of Inl e \<Rightarrow> Inl e | Inr (x, s') \<Rightarrow> f x s')"

subsection \<open>C operations\<close>

definition load :: "ptr \<Rightarrow> cell exec" where
  "load p s =
     (case p of
        None \<Rightarrow> Inl NullDereference
      | Some a \<Rightarrow> (case nheap s a of None \<Rightarrow> Inl InvalidRead | Some c \<Rightarrow> Inr (c, s)))"

text \<open>\<open>free(p)\<close>: nothing for \<open>NULL\<close>, undefined for anything but a live allocation.\<close>
definition free :: "ptr \<Rightarrow> unit exec" where
  "free p s =
     (case p of
        None \<Rightarrow> Inr ((), s)
      | Some a \<Rightarrow>
          (case nheap s a of
             None \<Rightarrow> Inl InvalidFree
           | Some c \<Rightarrow> Inr ((), s\<lparr>nheap := (nheap s)(a := None), trace := trace s @ [Freed a]\<rparr>)))"

text \<open>\<open>matches->len\<close>\<close>
definition Matches_len :: "ptr \<Rightarrow> cint exec" where
  "Matches_len p =
     seq (load p) (\<lambda>c. case c of MatchesStruct buf len \<Rightarrow> ret len | _ \<Rightarrow> (\<lambda>s. Inl InvalidRead))"

text \<open>\<open>matches->matches\<close>\<close>
definition Matches_matches :: "ptr \<Rightarrow> ptr exec" where
  "Matches_matches p =
     seq (load p) (\<lambda>c. case c of MatchesStruct buf len \<Rightarrow> ret buf | _ \<Rightarrow> (\<lambda>s. Inl InvalidRead))"

text \<open>\<open>metadata->size\<close>\<close>
definition Metadata_size :: "ptr \<Rightarrow> cint exec" where
  "Metadata_size p =
     seq (load p) (\<lambda>c. case c of MetadataStruct arr n \<Rightarrow> ret n | _ \<Rightarrow> (\<lambda>s. Inl InvalidRead))"

text \<open>\<open>metadata->metadata\<close>\<close>
definition Metadata_metadata :: "ptr \<Rightarrow> ptr exec" where
  "Metadata_metadata p =
     seq (load p) (\<lambda>c. case c of MetadataStruct arr n \<Rightarrow> ret arr | _ \<Rightarrow> (\<lambda>s. Inl InvalidRead))"

text \<open>\<open>p[i]\<close> for a \<open>char **p\<close>\<close>
definition index_ptr :: "ptr \<Rightarrow> int \<Rightarrow> ptr exec" where
  "index_ptr p i =
     seq (load p) (\<lambda>c. case c of
        PtrArr ps \<Rightarrow> (if 0 \<le> i \<and> i < int (length ps) then ret (ps ! nat i) else (\<lambda>s. Inl InvalidRead))
      | _ \<Rightarrow> (\<lambda>s. Inl InvalidRead))"

text \<open>Arithmetic on \<open>int\<close>: leaving the range of the type is undefined.\<close>
definition int_op :: "int \<Rightarrow> int exec" where
  "int_op v = (if - (2 ^ 31) \<le> v \<and> v < 2 ^ 31 then ret v else (\<lambda>s. Inl SignedOverflow))"

subsection \<open>The native engine\<close>

text \<open>
  The three primitives of the engine that the adapter calls.  The engine is opaque:
  a primitive is any function of its arguments and the C heap that returns a result
  and the C heap it leaves behind.  A \<open>const char *\<close> argument is given by the string
  it points to.
\<close>
record librulestone =
  NewRuleEngine :: "string option \<Rightarrow> cheap \<Rightarrow> cint \<times> cheap"
  Match :: "cint \<Rightarrow> string option \<Rightarrow> cheap \<Rightarrow> ptr \<times> cheap"
  GetRuleMetadata :: "cint \<Rightarrow> cint \<Rightarrow> cheap \<Rightarrow> ptr \<times> cheap"

definition call_native :: "(cheap \<Rightarrow> 'a \<times> cheap) \<Rightarrow> 'a exec" where
  "call_native f s = (case f (nheap s) of (r, h) \<Rightarrow> Inr (r, s\<lparr>nheap := h\<rparr>))"

subsection \<open>The JNI functions the adapter calls\<close>

text \<open>
  A host allocation takes its outcome from the plan.  A failed allocation leaves an
  exception pending and the JNI function returns \<open>NULL\<close>; the native code goes on.
  The functions below do not look at the pending exception: a call made while one is
  pending proceeds.  The JNI specification allows this for \<open>ReleaseStringUTFChars\<close>
  and leaves it undefined for the other functions used here, so a run that goes on
  after a failed allocation is defined by this model, not by JNI.
\<close>
definition host_alloc :: "world \<Rightarrow> bool \<times> world" where
  "host_alloc s =
     (case plan s of
        [] \<Rightarrow> (True, s)
      | b # bs \<Rightarrow> (b, s\<lparr>plan := bs, pending := (if b then pending s else True)\<rparr>))"

definition new_object :: "jobj \<Rightarrow> jvalue exec" where
  "new_object obj s =
     (case host_alloc s of
        (True, s') \<Rightarrow>
          Inr (JObject (jnext s'), s'\<lparr>jheap := (jheap s')(jnext s' := Some obj), jnext := Suc (jnext s')\<rparr>)
      | (False, s') \<Rightarrow> Inr (JNull, s'))"

definition GetStringUTFChars :: "jvalue \<Rightarrow> string option exec" where
  "GetStringUTFChars jstr s =
     (case jstr of
        JString str \<Rightarrow>
          (case host_alloc s of
             (True, s') \<Rightarrow> Inr (Some str, s'\<lparr>views := str # views s'\<rparr>)
           | (False, s') \<Rightarrow> Inr (None, s'))
      | _ \<Rightarrow> Inl JniMisuse)"

definition ReleaseStringUTFChars :: "jvalue \<Rightarrow> string option \<Rightarrow> unit exec" where
  "ReleaseStringUTFChars jstr chars s =
     (case chars of
        None \<Rightarrow> Inr ((), s)
      | Some c \<Rightarrow>
          (if c \<in> set (views s) then Inr ((), s\<lparr>views := remove1 c (views s)\<rparr>)
           else Inl JniMisuse))"

definition NewIntArray :: "cint \<Rightarrow> jvalue exec" where
  "NewIntArray len s =
     (if sint len < 0 then Inr (JNull, s\<lparr>pending := True\<rparr>)
      else new_object (JIntArray (replicate (nat (sint len)) 0)) s)"

text \<open>
  \<open>SetIntArrayRegion(env, array, start, len, buf)\<close>: a region outside the array leaves
  an exception pending and copies nothing; an empty region reads nothing from \<open>buf\<close>.
\<close>
definition SetIntArrayRegion :: "jvalue \<Rightarrow> cint \<Rightarrow> cint \<Rightarrow> ptr \<Rightarrow> unit exec" where
  "SetIntArrayRegion array start len buf s =
     (case array of
        JObject r \<Rightarrow>
          (case jheap s r of
             Some (JIntArray xs) \<Rightarrow>
               (if sint start < 0 \<or> sint len < 0 \<or> int (length xs) < sint start + sint len
                then Inr ((), s\<lparr>pending := True\<rparr>)
                else if sint len = 0
                then Inr ((), s\<lparr>trace := trace s @ [Copied buf]\<rparr>)
                else
                  (case load buf s of
                     Inl e \<Rightarrow> Inl e
                   | Inr (IntArr ys, s') \<Rightarrow>
                       (if nat (sint len) \<le> length ys
                        then Inr ((), s'\<lparr>jheap := (jheap s')(r := Some (JIntArray
                                 (take (nat (sint start)) xs @ take (nat (sint len)) ys
                                    @ drop (nat (sint start) + nat (sint len)) xs))),
                               trace := trace s' @ [Copied buf]\<rparr>)
                        else Inl InvalidRead)
                   | Inr (_, s') \<Rightarrow> Inl InvalidRead))
           | _ \<Rightarrow> Inl JniMisuse)
      | _ \<Rightarrow> Inl JniMisuse)"

text \<open>The classes of the host that the adapter looks up, and their members.\<close>
definition host_classes :: "string list" where
  "host_classes = [''com/atlasgurus/rulestone/RuleMetadata'', ''java/util/HashMap'']"

definition host_methods :: "(string \<times> string \<times> string) list" where
  "host_methods =
     [(''com/atlasgurus/rulestone/RuleMetadata'', ''<init>'', ''(Ljava/util/Map;)V''),
      (''java/util/HashMap'', ''<init>'', ''()V''),
      (''java/util/HashMap'', ''put'', ''(Ljava/lang/Object;Ljava/lang/Object;)Ljava/lang/Object;'')]"

definition FindClass :: "string \<Rightarrow> jclass exec" where
  "FindClass name s =
     (if name \<in> set host_classes then Inr (Some name, s) else Inr (None, s\<lparr>pending := True\<rparr>))"

definition GetMethodID :: "jclass \<Rightarrow> string \<Rightarrow> string \<Rightarrow> jmethodID exec" where
  "GetMethodID cls name sig s =
     (case cls of
        None \<Rightarrow> Inl JniMisuse
      | Some c \<Rightarrow>
          (if (c, name, sig) \<in> set host_methods then Inr (Some (c, name, sig), s)
           else Inr (None, s\<lparr>pending := True\<rparr>)))"

text \<open>
  \<open>NewObject(env, cls, ctor, args...)\<close> for the two constructors of the host:
  \<open>new HashMap()\<close> and \<open>new RuleMetadata(Map)\<close>.
\<close>
definition NewObject :: "jclass \<Rightarrow> jmethodID \<Rightarrow> jvalue list \<Rightarrow> jvalue exec" where
  "NewObject cls ctor args s =
     (if cls = Some ''java/util/HashMap'' \<and> ctor = Some (''java/util/HashMap'', ''<init>'', ''()V'')
         \<and> args = []
      then new_object (JHashMap (\<lambda>k. None)) s
      else if cls = Some ''com/atlasgurus/rulestone/RuleMetadata''
         \<and> ctor = Some (''com/atlasgurus/rulestone/RuleMetadata'', ''<init>'', ''(Ljava/util/Map;)V'')
         \<and> length args = 1
      then new_object (JRuleMetadata (hd args)) s
      else Inl JniMisuse)"

text \<open>
  \<open>NewStringUTF(env, bytes)\<close>: reads the C string at \<open>bytes\<close> and returns the Java
  string that the JVM builds from these bytes.  JNI defines the characters of that
  string for modified UTF-8 only (see \<open>host_chars\<close>).
\<close>
definition NewStringUTF :: "ptr \<Rightarrow> jvalue exec" where
  "NewStringUTF bytes s =
     (case load bytes s of
        Inl e \<Rightarrow> Inl e
      | Inr (CString str, s') \<Rightarrow>
          (case host_alloc s' of
             (True, s'') \<Rightarrow> Inr (JString str, s''\<lparr>trace := trace s'' @ [Copied bytes]\<rparr>)
           | (False, s'') \<Rightarrow> Inr (JNull, s''))
      | Inr (_, s') \<Rightarrow> Inl InvalidRead)"

text \<open>
  \<open>CallObjectMethod(env, obj, method, args...)\<close> for \<open>HashMap.put\<close>, the one method
  the adapter invokes: it maps the key to the value, replacing an earlier value of the
  same key, and returns that earlier value or \<open>null\<close>.  \<open>null\<close> is a legal key and a
  legal value of a \<open>HashMap\<close>.  The receiver must not be \<open>NULL\<close>.
\<close>
definition CallObjectMethod :: "jvalue \<Rightarrow> jmethodID \<Rightarrow> jvalue list \<Rightarrow> jvalue exec" where
  "CallObjectMethod obj method args s =
     (case obj of
        JObject r \<Rightarrow>
          (case jheap s r of
             Some (JHashMap m) \<Rightarrow>
               (if method = Some (''java/util/HashMap'', ''put'',
                      ''(Ljava/lang/Object;Ljava/lang/Object;)Ljava/lang/Object;'')
                   \<and> length args = 2
                then
                  (case host_alloc s of
                     (True, s') \<Rightarrow>
                       Inr (case m (args ! 0) of None \<Rightarrow> JNull | Some v \<Rightarrow> v,
                            s'\<lparr>jheap := (jheap s')(r := Some (JHashMap (m(args ! 0 := Some (args ! 1)))))\<rparr>)
                   | (False, s') \<Rightarrow> Inr (JNull, s'))
                else Inl JniMisuse)
           | _ \<Rightarrow> Inl JniMisuse)
      | _ \<Rightarrow> Inl JniMisuse)"

subsection \<open>The entry points\<close>

text \<open>
  \<^verbatim>\<open>
  const char *rules_path = (*env)->GetStringUTFChars(env, jstr, 0);
  int rule_engine_id = NewRuleEngine(rules_path);
  (*env)->ReleaseStringUTFChars(env, jstr, rules_path);
  return rule_engine_id;
  \<close>
\<close>
definition Java_com_atlasgurus_rulestone_Rulestone_NewRuleEngine ::
    "librulestone \<Rightarrow> jvalue \<Rightarrow> cint exec" where
  "Java_com_atlasgurus_rulestone_Rulestone_NewRuleEngine lib jstr =
     seq (GetStringUTFChars jstr) (\<lambda>rules_path.
     seq (call_native (NewRuleEngine lib rules_path)) (\<lambda>rule_engine_id.
     seq (ReleaseStringUTFChars jstr rules_path) (\<lambda>_.
     ret rule_engine_id)))"

text \<open>
  \<^verbatim>\<open>
  const char *input = (*env)->GetStringUTFChars(env, jstr, 0);
  Matches* matches = Match(rule_engine_id, input);
  jintArray result = (*env)->NewIntArray(env, matches->len);
  (*env)->SetIntArrayRegion(env, result, 0, matches->len, matches->matches);
  free(matches->matches);
  free(matches);
  (*env)->ReleaseStringUTFChars(env, jstr, input);
  return result;
  \<close>
\<close>
definition Java_com_atlasgurus_rulestone_Rulestone_Match ::
    "librulestone \<Rightarrow> cint \<Rightarrow> jvalue \<Rightarrow> jvalue exec" where
  "Java_com_atlasgurus_rulestone_Rulestone_Match lib rule_engine_id jstr =
     seq (GetStringUTFChars jstr) (\<lambda>input.
     seq (call_native (Match lib rule_engine_id input)) (\<lambda>matches.
     seq (Matches_len matches) (\<lambda>len.
     seq (NewIntArray len) (\<lambda>result.
     seq (Matches_len matches) (\<lambda>len'.
     seq (Matches_matches matches) (\<lambda>buf.
     seq (SetIntArrayRegion result 0 len' buf) (\<lambda>_.
     seq (Matches_matches matches) (\<lambda>buf'.
     seq (free buf') (\<lambda>_.
     seq (free matches) (\<lambda>_.
     seq (ReleaseStringUTFChars jstr input) (\<lambda>_.
     ret result)))))))))))"

text \<open>
  The body of the loop of \<open>GetRuleMetadata\<close>:
  \<^verbatim>\<open>
  jstring key = (*env)->NewStringUTF(env, metadata->metadata[i*2]);
  jstring value = (*env)->NewStringUTF(env, metadata->metadata[i*2+1]);
  (*env)->CallObjectMethod(env, hashMap, hashMapPut, key, value);
  free(metadata->metadata[i*2]);
  free(metadata->metadata[i*2+1]);
  \<close>
\<close>
definition metadata_body :: "ptr \<Rightarrow> jvalue \<Rightarrow> jmethodID \<Rightarrow> int \<Rightarrow> unit exec" where
  "metadata_body metadata hashMap hashMapPut i =
     seq (Metadata_metadata metadata) (\<lambda>arr.
     seq (int_op (i * 2)) (\<lambda>k.
     seq (index_ptr arr k) (\<lambda>kp.
     seq (NewStringUTF kp) (\<lambda>key.
     seq (Metadata_metadata metadata) (\<lambda>arr.
     seq (int_op (i * 2)) (\<lambda>k.
     seq (int_op (k + 1)) (\<lambda>v.
     seq (index_ptr arr v) (\<lambda>vp.
     seq (NewStringUTF vp) (\<lambda>value.
     seq (CallObjectMethod hashMap hashMapPut [key, value]) (\<lambda>_.
     seq (Metadata_metadata metadata) (\<lambda>arr.
     seq (int_op (i * 2)) (\<lambda>k.
     seq (index_ptr arr k) (\<lambda>kp.
     seq (free kp) (\<lambda>_.
     seq (Metadata_metadata metadata) (\<lambda>arr.
     seq (int_op (i * 2)) (\<lambda>k.
     seq (int_op (k + 1)) (\<lambda>v.
     seq (index_ptr arr v) (\<lambda>vp.
     free vp))))))))))))))))))"

text \<open>
  The loop of \<open>GetRuleMetadata\<close>:
  \<^verbatim>\<open>
  for (int i = 0; i < metadata->size; i++ ) { ... }
  \<close>
  The condition reads \<open>metadata->size\<close> from the C heap before every iteration.
\<close>
function metadata_loop :: "ptr \<Rightarrow> jvalue \<Rightarrow> jmethodID \<Rightarrow> int \<Rightarrow> unit exec" where
  "metadata_loop metadata hashMap hashMapPut i s =
     (case Metadata_size metadata s of
        Inl e \<Rightarrow> Inl e
      | Inr (sz, s0) \<Rightarrow>
          (if i < sint sz then
             (case metadata_body metadata hashMap hashMapPut i s0 of
                Inl e \<Rightarrow> Inl e
              | Inr (u, s1) \<Rightarrow>
                  (case int_op (i + 1) s1 of
                     Inl e \<Rightarrow> Inl e
                   | Inr (j, s2) \<Rightarrow> metadata_loop metadata hashMap hashMapPut j s2))
           else Inr ((), s0)))"
  by pat_completeness auto

text \<open>
  \<^verbatim>\<open>
  Metadata* metadata = GetRuleMetadata(rule_engine_id, rule_id);
  if (metadata == NULL) {
      return NULL;
  }
  jclass ruleMetadataClass = (*env)->FindClass(env, "com/atlasgurus/rulestone/RuleMetadata");
  jmethodID constructor = (*env)->GetMethodID(env, ruleMetadataClass, "<init>", "(Ljava/util/Map;)V");
  jclass hashMapClass = (*env)->FindClass(env, "java/util/HashMap");
  jmethodID hashMapConstructor = (*env)->GetMethodID(env, hashMapClass, "<init>", "()V");
  jobject hashMap = (*env)->NewObject(env, hashMapClass, hashMapConstructor);
  jmethodID hashMapPut = (*env)->GetMethodID(env, hashMapClass, "put",
      "(Ljava/lang/Object;Ljava/lang/Object;)Ljava/lang/Object;");
  for (...) { ... }
  free(metadata->metadata);
  return (*env)->NewObject(env, ruleMetadataClass, constructor, hashMap);
  \<close>
\<close>
definition Java_com_atlasgurus_rulestone_Rulestone_GetRuleMetadata ::
    "librulestone \<Rightarrow> cint \<Rightarrow> cint \<Rightarrow> jvalue exec" where
  "Java_com_atlasgurus_rulestone_Rulestone_GetRuleMetadata lib rule_engine_id rule_id =
     seq (call_native (GetRuleMetadata lib rule_engine_id rule_id)) (\<lambda>metadata.
     if metadata = None then ret JNull
     else
     seq (FindClass ''com/atlasgurus/rulestone/RuleMetadata'') (\<lambda>ruleMetadataClass.
     seq (GetMethodID ruleMetadataClass ''<init>'' ''(Ljava/util/Map;)V'') (\<lambda>constructor.
     seq (FindClass ''java/util/HashMap'') (\<lambda>hashMapClass.
     seq (GetMethodID hashMapClass ''<init>'' ''()V'') (\<lambda>hashMapConstructor.
     seq (NewObject hashMapClass hashMapConstructor []) (\<lambda>hashMap.
     seq (GetMethodID hashMapClass ''put''
            ''(Ljava/lang/Object;Ljava/lang/Object;)Ljava/lang/Object;'') (\<lambda>hashMapPut.
     seq (metadata_loop metadata hashMap hashMapPut 0) (\<lambda>_.
     seq (Metadata_metadata metadata) (\<lambda>arr.
     seq (free arr) (\<lambda>_.
     NewObject ruleMetadataClass constructor [hashMap]))))))))))"

subsection \<open>What the engine hands over\<close>

text \<open>
  A match-set with header at \<open>a\<close> in the C heap \<open>h\<close>: the header holds the buffer
  pointer \<open>buf\<close> and the count of \<open>ids\<close>; the buffer, a second allocation, starts with
  \<open>ids\<close>.  An empty match-set may come without a buffer.
\<close>
definition native_matches :: "cheap \<Rightarrow> addr \<Rightarrow> ptr \<Rightarrow> cint list \<Rightarrow> bool" where
  "native_matches h a buf ids =
     (case h a of
        Some (MatchesStruct buf' len) \<Rightarrow>
          buf' = buf \<and> sint len = int (length ids) \<and>
          (case buf of
             None \<Rightarrow> ids = []
           | Some b \<Rightarrow>
               (case h b of
                  Some (IntArr xs) \<Rightarrow> length ids \<le> length xs \<and> take (length ids) xs = ids
                | _ \<Rightarrow> False))
      | _ \<Rightarrow> False)"

text \<open>
  Rule metadata with header at \<open>a\<close> in the C heap \<open>h\<close>: the header holds the array
  pointer \<open>arr\<close> and the number of pairs; the array starts with the pointers \<open>as\<close>, two
  for every pair, to separate allocations that hold the strings \<open>strs\<close>; the indices
  \<open>i*2+1\<close> of the loop stay within \<open>int\<close>.  Metadata without pairs may come without
  an array.
\<close>
definition native_metadata :: "cheap \<Rightarrow> addr \<Rightarrow> ptr \<Rightarrow> addr list \<Rightarrow> string list \<Rightarrow> bool" where
  "native_metadata h a arr as strs =
     (case h a of
        Some (MetadataStruct arr' sz) \<Rightarrow>
          arr' = arr \<and> 2 * sint sz = int (length as) \<and> length as \<le> 2 ^ 31 \<and>
          length strs = length as \<and> distinct as \<and>
          map h as = map (\<lambda>str. Some (CString str)) strs \<and>
          (case arr of
             None \<Rightarrow> as = []
           | Some b \<Rightarrow>
               (case h b of
                  Some (PtrArr ps) \<Rightarrow> length as \<le> length ps \<and> take (length as) ps = map Some as
                | _ \<Rightarrow> False))
      | _ \<Rightarrow> False)"

text \<open>The key/value pairs of a flat array: pair \<open>i\<close> is made of the entries \<open>2*i\<close> and \<open>2*i+1\<close>.\<close>
fun pairs_of :: "'a list \<Rightarrow> ('a \<times> 'a) list" where
  "pairs_of (k # v # rest) = (k, v) # pairs_of rest"
| "pairs_of _ = []"

text \<open>The map a \<open>HashMap\<close> holds after \<open>put(k, v)\<close> for the pairs of a list, in order.\<close>
definition put_all :: "(string \<times> string) list \<Rightarrow> (jvalue \<Rightarrow> jvalue option) \<Rightarrow> (jvalue \<Rightarrow> jvalue option)" where
  "put_all kvs m = fold (\<lambda>(k, v) m. m(JString k := Some (JString v))) kvs m"

text \<open>The allocations freed in a trace, in order, and the address list of a pointer.\<close>
fun frees :: "event list \<Rightarrow> addr list" where
  "frees [] = []"
| "frees (Freed a # evs) = a # frees evs"
| "frees (Copied p # evs) = frees evs"

fun addrs_of :: "ptr \<Rightarrow> addr list" where
  "addrs_of None = []"
| "addrs_of (Some a) = [a]"

text \<open>
  The outcome of the next host allocation, of the one \<open>n\<close> allocations later, and a host
  that never fails.
\<close>
definition next_ok :: "world \<Rightarrow> bool" where
  "next_ok s = (case plan s of [] \<Rightarrow> True | b # bs \<Rightarrow> b)"

definition nth_ok :: "nat \<Rightarrow> world \<Rightarrow> bool" where
  "nth_ok n s = (if n < length (plan s) then plan s ! n else True)"

definition no_host_failure :: "world \<Rightarrow> bool" where
  "no_host_failure s = list_all (\<lambda>b. b) (plan s)"

text \<open>The method identifier of \<open>HashMap.put\<close>.\<close>
definition put_sig :: jmethodID where
  "put_sig = Some (''java/util/HashMap'', ''put'',
     ''(Ljava/lang/Object;Ljava/lang/Object;)Ljava/lang/Object;'')"

text \<open>
  A double of the engine for concrete runs: creation fails with the handle \<open>-1\<close> for
  every source but one; on engine 0 every input triggers rule 7, on engine 1 no rule
  matches, for any other handle \<open>Match\<close> returns \<open>NULL\<close>; rule 7 has the metadata
  \<open>severity = high\<close>, rule 8 has metadata without pairs, rule 9 has the key \<open>k\<close> twice,
  no other rule exists.
\<close>
definition engine_double :: librulestone where
  "engine_double =
     \<lparr>NewRuleEngine = (\<lambda>path h. (if path = Some ''rules.yaml'' then 0 else - 1, h)),
      Match = (\<lambda>eid input h.
        if eid = 0 then
          (Some 10, h(10 := Some (MatchesStruct (Some 11) 1), 11 := Some (IntArr [7])))
        else if eid = 1 then
          (Some 10, h(10 := Some (MatchesStruct (Some 11) 0), 11 := Some (IntArr [])))
        else (None, h)),
      GetRuleMetadata = (\<lambda>eid rid h.
        if rid = 7 then
          (Some 20, h(20 := Some (MetadataStruct (Some 21) 1),
                      21 := Some (PtrArr [Some 22, Some 23]),
                      22 := Some (CString ''severity''), 23 := Some (CString ''high'')))
        else if rid = 8 then
          (Some 30, h(30 := Some (MetadataStruct (Some 31) 0), 31 := Some (PtrArr [])))
        else if rid = 9 then
          (Some 40, h(40 := Some (MetadataStruct (Some 41) 2),
                      41 := Some (PtrArr [Some 42, Some 43, Some 44, Some 45]),
                      42 := Some (CString ''k''), 43 := Some (CString ''old''),
                      44 := Some (CString ''k''), 45 := Some (CString ''new'')))
        else (None, h))\<rparr>"

text \<open>The C heaps the double leaves behind, starting from an empty heap, for the rules 7, 8 and 9.\<close>
definition heap7 :: cheap where
  "heap7 = (\<lambda>a. None)(20 := Some (MetadataStruct (Some 21) 1),
                      21 := Some (PtrArr [Some 22, Some 23]),
                      22 := Some (CString ''severity''), 23 := Some (CString ''high''))"

definition heap8 :: cheap where
  "heap8 = (\<lambda>a. None)(30 := Some (MetadataStruct (Some 31) 0), 31 := Some (PtrArr []))"


text \<open>A state with empty heaps in which the host allocations follow the plan \<open>p\<close>.\<close>
definition fresh :: "bool list \<Rightarrow> world" where
  "fresh p = \<lparr>nheap = (\<lambda>a. None), jheap = (\<lambda>r. None), jnext = 0, plan = p,
     pending = False, views = [], trace = []\<rparr>"

subsection \<open>The characters of a string\<close>














text \<open>Auxiliary notions for the termination of the loop.\<close>
definition shrinks :: "'a exec \<Rightarrow> bool" where
  "shrinks m = (\<forall>s x s' a c. m s = Inr (x, s') \<longrightarrow> nheap s' a = Some c \<longrightarrow> nheap s a = Some c)"

definition remaining :: "ptr \<Rightarrow> int \<Rightarrow> world \<Rightarrow> nat" where
  "remaining metadata i s =
     (case Metadata_size metadata s of Inl e \<Rightarrow> 0 | Inr (n, s') \<Rightarrow> nat (sint n - i))"

section \<open>Termination of the loop\<close>

lemma host_alloc_eq:
  "host_alloc s =
     (next_ok s, s\<lparr>plan := tl (plan s), pending := (if next_ok s then pending s else True)\<rparr>)"
  by (simp add: host_alloc_def next_ok_def split: list.splits)

lemma shrinks_seq: "shrinks m \<Longrightarrow> (\<And>x. shrinks (f x)) \<Longrightarrow> shrinks (seq m f)"
  unfolding shrinks_def seq_def
  by (fastforce split: sum.splits prod.splits)

lemma shrinks_load: "shrinks (load p)"
  by (auto simp: shrinks_def load_def split: option.splits)

lemma shrinks_free: "shrinks (free p)"
  by (auto simp: shrinks_def free_def split: option.splits if_splits)

lemma shrinks_Metadata_metadata: "shrinks (Metadata_metadata p)"
  unfolding Metadata_metadata_def
  by (intro shrinks_seq shrinks_load) (auto simp: shrinks_def ret_def split: cell.splits)

lemma shrinks_index_ptr: "shrinks (index_ptr p i)"
  unfolding index_ptr_def
  by (intro shrinks_seq shrinks_load) (auto simp: shrinks_def ret_def split: cell.splits)

lemma shrinks_int_op: "shrinks (int_op v)"
  by (auto simp: shrinks_def int_op_def ret_def)

lemma shrinks_NewStringUTF: "shrinks (NewStringUTF p)"
  by (auto simp: shrinks_def NewStringUTF_def load_def host_alloc_eq
      split: option.splits cell.splits if_splits)

lemma shrinks_CallObjectMethod: "shrinks (CallObjectMethod obj m args)"
  by (auto simp: shrinks_def CallObjectMethod_def host_alloc_eq
      split: jvalue.splits option.splits jobj.splits if_splits)

lemma shrinks_metadata_body: "shrinks (metadata_body metadata hashMap hashMapPut i)"
  unfolding metadata_body_def
  by (intro shrinks_seq shrinks_Metadata_metadata shrinks_index_ptr shrinks_int_op
        shrinks_NewStringUTF shrinks_CallObjectMethod shrinks_free)

lemma Metadata_size_Inr:
  "Metadata_size p s = Inr (n, s') \<Longrightarrow>
     s' = s \<and> (\<exists>a arr. p = Some a \<and> nheap s a = Some (MetadataStruct arr n))"
  by (auto simp: Metadata_size_def seq_def load_def ret_def split: option.splits cell.splits)

lemma remaining_step:
  assumes "Metadata_size metadata s = Inr (n, s0)" "i < sint n"
    "metadata_body metadata hashMap hashMapPut i s0 = Inr (u, s1)"
    "int_op (i + 1) s1 = Inr (j, s2)"
  shows "remaining metadata j s2 < remaining metadata i s"
proof -
  from assms(1) obtain a arr where s0: "s0 = s" and p: "metadata = Some a"
    and h: "nheap s a = Some (MetadataStruct arr n)"
    using Metadata_size_Inr by blast
  from assms(4) have j: "j = i + 1" "s2 = s1"
    by (auto simp: int_op_def ret_def split: if_splits)
  have old: "remaining metadata i s = nat (sint n - i)"
    using assms(1) by (simp add: remaining_def)
  show ?thesis
  proof (cases "Metadata_size metadata s1")
    case (Inl e)
    then show ?thesis using old assms(2) j by (simp add: remaining_def)
  next
    case (Inr r)
    obtain n' s' where r: "r = (n', s')" by (cases r)
    from Inr r obtain arr' where "nheap s1 a = Some (MetadataStruct arr' n')"
      using Metadata_size_Inr p by fastforce
    with shrinks_metadata_body assms(3) s0 have "nheap s a = Some (MetadataStruct arr' n')"
      unfolding shrinks_def by blast
    with h have "n' = n" by simp
    then show ?thesis using Inr r old assms(2) j by (simp add: remaining_def)
  qed
qed

termination metadata_loop
  by (relation "measure (\<lambda>(metadata, hashMap, hashMapPut, i, s). remaining metadata i s)")
     (auto intro: remaining_step)

declare metadata_loop.simps [simp del]

section \<open>Stepping through the operations\<close>

lemma next_ok_tl: "next_ok (s\<lparr>plan := tl (plan s)\<rparr>) = nth_ok 1 s"
  by (cases "plan s"; cases "tl (plan s)") (auto simp: next_ok_def nth_ok_def)

lemma nth_ok_1: "nth_ok (Suc 0) s = (case tl (plan s) of [] \<Rightarrow> True | b # bs \<Rightarrow> b)"
  by (cases "plan s"; cases "tl (plan s)") (auto simp: nth_ok_def)

lemma no_host_failure_nth: "no_host_failure s \<Longrightarrow> nth_ok n s"
  by (auto simp: no_host_failure_def nth_ok_def list_all_length)

lemma no_host_failure_next: "no_host_failure s \<Longrightarrow> next_ok s"
  by (cases "plan s") (auto simp: no_host_failure_def next_ok_def)

lemma native_matchesD:
  "native_matches h a buf ids \<Longrightarrow>
     \<exists>len. h a = Some (MatchesStruct buf len) \<and> sint len = int (length ids) \<and>
       (case buf of None \<Rightarrow> ids = []
        | Some b \<Rightarrow> b \<noteq> a \<and> (\<exists>xs. h b = Some (IntArr xs) \<and> length ids \<le> length xs \<and> take (length ids) xs = ids))"
  by (auto simp: native_matches_def split: option.splits cell.splits)

lemma Match_run:
  assumes nat: "Match lib eid (if next_ok s then Some str else None) (nheap s) = (Some a, h)"
    and wf: "native_matches h a buf ids"
    and ok: "nth_ok 1 s"
  shows "\<exists>s'. Java_com_atlasgurus_rulestone_Rulestone_Match lib eid (JString str) s
             = Inr (JObject (jnext s), s')
          \<and> jheap s' = (jheap s)(jnext s := Some (JIntArray ids))
          \<and> jnext s' = Suc (jnext s)
          \<and> nheap s' = h |` (- set (addrs_of buf @ [a]))
          \<and> trace s' = trace s @ Copied buf # map Freed (addrs_of buf @ [a])
          \<and> views s' = views s
          \<and> plan s' = tl (tl (plan s))
          \<and> pending s' = (if next_ok s then pending s else True)"
proof -
  from native_matchesD[OF wf] obtain len where
    ha: "h a = Some (MatchesStruct buf len)" and len: "sint len = int (length ids)" and
    b: "case buf of None \<Rightarrow> ids = []
        | Some b \<Rightarrow> b \<noteq> a \<and> (\<exists>xs. h b = Some (IntArr xs) \<and> length ids \<le> length xs \<and> take (length ids) xs = ids)"
    by blast
  from ok have ok': "next_ok (s\<lparr>plan := tl (plan s)\<rparr>)"
    by (simp add: next_ok_tl)
  show ?thesis
  proof (cases buf)
    case None
    with b have "ids = []" by simp
    with nat ha len ok' None show ?thesis
      by (auto simp: Java_com_atlasgurus_rulestone_Rulestone_Match_def seq_def ret_def
          GetStringUTFChars_def host_alloc_eq call_native_def ReleaseStringUTFChars_def
          Matches_len_def Matches_matches_def load_def free_def NewIntArray_def new_object_def
          SetIntArrayRegion_def next_ok_def restrict_map_def fun_eq_iff)
  next
    case (Some b')
    with b obtain xs where "b' \<noteq> a" "h b' = Some (IntArr xs)" "length ids \<le> length xs" "take (length ids) xs = ids"
      by auto
    with nat ha len ok' Some show ?thesis
      by (auto simp: Java_com_atlasgurus_rulestone_Rulestone_Match_def seq_def ret_def
          GetStringUTFChars_def host_alloc_eq call_native_def ReleaseStringUTFChars_def
          Matches_len_def Matches_matches_def load_def free_def NewIntArray_def new_object_def
          SetIntArrayRegion_def next_ok_def restrict_map_def fun_eq_iff)
  qed
qed

lemma Match_null:
  "Match lib eid (if next_ok s then Some str else None) (nheap s) = (None, h) \<Longrightarrow>
   Java_com_atlasgurus_rulestone_Rulestone_Match lib eid (JString str) s = Inl NullDereference"
  by (auto simp: Java_com_atlasgurus_rulestone_Rulestone_Match_def seq_def
      GetStringUTFChars_def host_alloc_eq call_native_def Matches_len_def load_def
      split: if_splits)

lemma Match_Inr_D:
  assumes "Java_com_atlasgurus_rulestone_Rulestone_Match lib eid (JString str) s = Inr (r, s')"
    and "Match lib eid (if next_ok s then Some str else None) (nheap s) = (p, h)"
  shows "\<exists>a buf len. p = Some a \<and> h a = Some (MatchesStruct buf len) \<and> 0 \<le> sint len
      \<and> nth_ok 1 s
      \<and> (0 < sint len \<longrightarrow> (\<exists>b xs. buf = Some b \<and> h b = Some (IntArr xs) \<and> nat (sint len) \<le> length xs))"
  using assms
  apply (simp add: Java_com_atlasgurus_rulestone_Rulestone_Match_def seq_def ret_def
          GetStringUTFChars_def host_alloc_eq call_native_def 
          Matches_len_def Matches_matches_def load_def NewIntArray_def new_object_def
          SetIntArrayRegion_def next_ok_tl
          split: option.splits cell.splits if_splits sum.splits prod.splits)
  apply (auto simp: next_ok_def nth_ok_1 split: option.splits cell.splits if_splits sum.splits prod.splits)
  done

lemma frees_append: "frees (xs @ ys) = frees xs @ frees ys"
  by (induction xs rule: frees.induct) auto

lemma index_ptr_run:
  "nheap s b = Some (PtrArr ps) \<Longrightarrow> 0 \<le> i \<Longrightarrow> i < int (length ps) \<Longrightarrow>
     index_ptr (Some b) i s = Inr (ps ! nat i, s)"
  by (simp add: index_ptr_def seq_def load_def ret_def)

lemma Metadata_metadata_run:
  "nheap s a = Some (MetadataStruct arr sz) \<Longrightarrow> Metadata_metadata (Some a) s = Inr (arr, s)"
  by (simp add: Metadata_metadata_def seq_def load_def ret_def)

lemma Metadata_size_run:
  "nheap s a = Some (MetadataStruct arr sz) \<Longrightarrow> Metadata_size (Some a) s = Inr (sz, s)"
  by (simp add: Metadata_size_def seq_def load_def ret_def)

lemma int_op_run: "- (2 ^ 31) \<le> v \<Longrightarrow> v < 2 ^ 31 \<Longrightarrow> int_op v s = Inr (v, s)"
  by (simp add: int_op_def ret_def)

lemma NewStringUTF_run:
  "nheap s c = Some (CString str) \<Longrightarrow>
   NewStringUTF (Some c) s =
     Inr (if next_ok s then JString str else JNull,
          s\<lparr>plan := tl (plan s), pending := (if next_ok s then pending s else True),
            trace := (if next_ok s then trace s @ [Copied (Some c)] else trace s)\<rparr>)"
  by (simp add: NewStringUTF_def load_def host_alloc_eq)

lemma put_run:
  "jheap s m = Some (JHashMap M) \<Longrightarrow>
   CallObjectMethod (JObject m) put_sig [k, v] s =
     Inr (if next_ok s then (case M k of None \<Rightarrow> JNull | Some w \<Rightarrow> w) else JNull,
          s\<lparr>plan := tl (plan s), pending := (if next_ok s then pending s else True),
            jheap := (if next_ok s then (jheap s)(m := Some (JHashMap (M(k := Some v)))) else jheap s)\<rparr>)"
  by (simp add: CallObjectMethod_def put_sig_def host_alloc_eq)

lemma free_run:
  "nheap s c = Some x \<Longrightarrow>
   free (Some c) s = Inr ((), s\<lparr>nheap := (nheap s)(c := None), trace := trace s @ [Freed c]\<rparr>)"
  by (simp add: free_def)

lemma body_run:
  assumes ha: "nheap s a = Some (MetadataStruct (Some b) sz)"
    and hb: "nheap s b = Some (PtrArr ps)"
    and i: "0 \<le> i" "i * 2 + 1 < int (length ps)" "i * 2 + 1 < 2 ^ 31"
    and pk: "ps ! nat (i * 2) = Some ka" and pv: "ps ! nat (i * 2 + 1) = Some va"
    and hk: "nheap s ka = Some (CString k)" and hv: "nheap s va = Some (CString v)"
    and ne: "ka \<noteq> va"
    and hm: "jheap s m = Some (JHashMap M)"
  shows "\<exists>s'. metadata_body (Some a) (JObject m) put_sig i s = Inr ((), s')
      \<and> nheap s' = (nheap s)(ka := None, va := None)
      \<and> frees (trace s') = frees (trace s) @ [ka, va]
      \<and> (\<exists>M'. jheap s' = (jheap s)(m := Some (JHashMap M')))
      \<and> jnext s' = jnext s \<and> views s' = views s
      \<and> (no_host_failure s \<longrightarrow> no_host_failure s' \<and> pending s' = pending s
            \<and> jheap s' = (jheap s)(m := Some (JHashMap (M(JString k := Some (JString v)))))
            \<and> trace s' = trace s @ [Copied (Some ka), Copied (Some va), Freed ka, Freed va])"
proof -
  have neq: "a \<noteq> ka" "a \<noteq> va" "b \<noteq> ka" "b \<noteq> va" "a \<noteq> b"
    using ha hb hk hv by auto
  have M: "jheap s = (jheap s)(m := Some (JHashMap M))"
    using hm by auto
  have ok: "no_host_failure s \<Longrightarrow> next_ok s \<and> (case tl (plan s) of [] \<Rightarrow> True | b # bs \<Rightarrow> b)
      \<and> (case tl (tl (plan s)) of [] \<Rightarrow> True | b # bs \<Rightarrow> b) \<and> list_all (\<lambda>b. b) (tl (tl (tl (plan s))))"
    by (auto simp: no_host_failure_def next_ok_def split: list.splits)
  show ?thesis
    using ha hb hk hv hm neq ne i pk pv
    apply (simp add: metadata_body_def seq_def Metadata_metadata_run int_op_run index_ptr_run
        NewStringUTF_run put_run free_run next_ok_def[of "_\<lparr>trace := _\<rparr>"] frees_append)
    apply (insert ok)
    apply (auto simp: no_host_failure_def intro: M)
    done
qed


lemma loop_exit:
  "nheap s a = Some (MetadataStruct arr sz) \<Longrightarrow> sint sz \<le> i \<Longrightarrow>
     metadata_loop (Some a) hm put i s = Inr ((), s)"
  by (subst metadata_loop.simps) (simp add: Metadata_size_run)

lemma loop_step:
  assumes "nheap s a = Some (MetadataStruct arr sz)" "0 \<le> i" "i < sint sz"
    "metadata_body (Some a) hm put i s = Inr ((), s1)"
  shows "metadata_loop (Some a) hm put i s = metadata_loop (Some a) hm put (i + 1) s1"
proof -
  have "sint sz < 2 ^ 31"
    using sint_lt[of sz] by simp
  with assms(2,3) have "int_op (i + 1) s1 = Inr (i + 1, s1)"
    by (intro int_op_run) auto
  with assms show ?thesis
    by (subst metadata_loop.simps) (simp add: Metadata_size_run)
qed

lemma drop2:
  "Suc (2 * j) < length xs \<Longrightarrow> drop (2 * j) xs = xs ! (2 * j) # xs ! Suc (2 * j) # drop (2 * Suc j) xs"
  by (simp add: Cons_nth_drop_Suc)

lemma put_all_Cons: "put_all ((k, v) # kvs) M = put_all kvs (M(JString k := Some (JString v)))"
  by (simp add: put_all_def)

lemma loop_run:
  assumes ha: "nheap s a = Some (MetadataStruct (Some b) sz)"
    and hb: "nheap s b = Some (PtrArr ps)"
    and sz: "2 * sint sz = int (length as)"
    and bound: "length as \<le> 2 ^ 31"
    and ps: "length as \<le> length ps" "take (length as) ps = map Some as"
    and dist: "distinct as"
    and len: "length strs = length as"
    and j: "2 * j \<le> length as"
    and live: "\<forall>x. 2 * j \<le> x \<and> x < length as \<longrightarrow> nheap s (as ! x) = Some (CString (strs ! x))"
    and hm: "jheap s m = Some (JHashMap M)"
  shows "\<exists>s'. metadata_loop (Some a) (JObject m) put_sig (int j) s = Inr ((), s')
      \<and> nheap s' = nheap s |` (- set (drop (2 * j) as))
      \<and> frees (trace s') = frees (trace s) @ drop (2 * j) as
      \<and> (\<exists>M'. jheap s' = (jheap s)(m := Some (JHashMap M')))
      \<and> jnext s' = jnext s \<and> views s' = views s
      \<and> (no_host_failure s \<longrightarrow> no_host_failure s' \<and> pending s' = pending s
            \<and> jheap s' = (jheap s)(m := Some (JHashMap (put_all (pairs_of (drop (2 * j) strs)) M)))
            \<and> trace s' = trace s @ concat (map (\<lambda>(ka, va).
                  [Copied (Some ka), Copied (Some va), Freed ka, Freed va]) (pairs_of (drop (2 * j) as))))"
  using ha hb j live hm
proof (induction "length as div 2 - j" arbitrary: j s M)
  case 0
  have "int (length as) = 2 * int j"
    using 0 sz by presburger
  then have "sint sz = int j" "drop (2 * j) as = []" "drop (2 * j) strs = []"
    using sz len by auto
  moreover have idem: "jheap s = (jheap s)(m := Some (JHashMap M))"
    using 0 by auto
  moreover have "metadata_loop (Some a) (JObject m) put_sig (int j) s = Inr ((), s)"
    using loop_exit[of s a "Some b" sz "int j" "JObject m" put_sig] 0 \<open>sint sz = int j\<close>
    by simp
  ultimately show ?case
    by (intro exI[of _ s] conjI exI[of _ M] impI) (simp_all add: put_all_def)
next
  case (Suc k)
  have lt: "Suc (2 * j) < length as"
    using Suc.hyps(2) by presburger
  define ka where "ka = as ! (2 * j)"
  define va where "va = as ! Suc (2 * j)"
  note ka_va_def = ka_def va_def
  have pk: "ps ! nat (int j * 2) = Some ka"
  proof -
    have "ps ! (2 * j) = take (length as) ps ! (2 * j)" using lt by simp
    also have "\<dots> = Some ka" using lt ps(2) ka_va_def by simp
    finally show ?thesis by (simp add: nat_mult_distrib mult.commute)
  qed
  have pv: "ps ! nat (int j * 2 + 1) = Some va"
  proof -
    have "ps ! Suc (2 * j) = take (length as) ps ! Suc (2 * j)" using lt by simp
    also have "\<dots> = Some va" using lt ps(2) ka_va_def by simp
    moreover have "nat (int j * 2 + 1) = Suc (2 * j)" by simp
    ultimately show ?thesis by simp
  qed
  have hk: "nheap s ka = Some (CString (strs ! (2 * j)))"
    and hv: "nheap s va = Some (CString (strs ! Suc (2 * j)))"
    using Suc.prems(4) lt ka_va_def by auto
  have ne: "ka \<noteq> va"
    using dist lt ka_va_def by (simp add: nth_eq_iff_index_eq)
  have i: "0 \<le> int j" "int j * 2 + 1 < int (length ps)" "int j * 2 + 1 < 2 ^ 31"
    using lt ps(1) bound by auto
  from body_run[OF Suc.prems(1) Suc.prems(2) i pk pv hk hv ne Suc.prems(5)]
  obtain s1 M1 where
    body: "metadata_body (Some a) (JObject m) put_sig (int j) s = Inr ((), s1)"
    and h1: "nheap s1 = (nheap s)(ka := None, va := None)"
    and f1: "frees (trace s1) = frees (trace s) @ [ka, va]"
    and j1: "jheap s1 = (jheap s)(m := Some (JHashMap M1))"
    and o1: "jnext s1 = jnext s" "views s1 = views s"
    and good1: "no_host_failure s \<longrightarrow> no_host_failure s1 \<and> pending s1 = pending s
            \<and> jheap s1 = (jheap s)(m := Some (JHashMap (M(JString (strs ! (2 * j)) := Some (JString (strs ! Suc (2 * j)))))))
            \<and> trace s1 = trace s @ [Copied (Some ka), Copied (Some va), Freed ka, Freed va]"
    by blast
  have neq: "a \<noteq> ka" "a \<noteq> va" "b \<noteq> ka" "b \<noteq> va"
    using Suc.prems(1,2) hk hv by auto
  have ha1: "nheap s1 a = Some (MetadataStruct (Some b) sz)"
    and hb1: "nheap s1 b = Some (PtrArr ps)"
    using Suc.prems(1,2) neq h1 by auto
  have live1: "\<forall>x. 2 * Suc j \<le> x \<and> x < length as \<longrightarrow> nheap s1 (as ! x) = Some (CString (strs ! x))"
  proof (intro allI impI)
    fix x assume x: "2 * Suc j \<le> x \<and> x < length as"
    then have "as ! x \<noteq> ka" "as ! x \<noteq> va"
      using dist lt ka_va_def by (auto simp: nth_eq_iff_index_eq)
    with x Suc.prems(4) h1 show "nheap s1 (as ! x) = Some (CString (strs ! x))"
      by simp
  qed
  have hm1: "jheap s1 m = Some (JHashMap M1)"
    using j1 by simp
  have k: "k = length as div 2 - Suc j" and j': "2 * Suc j \<le> length as"
    using Suc.hyps(2) lt by auto
  from Suc.hyps(1)[OF k ha1 hb1 j' live1 hm1]
  obtain s' M' where
    run: "metadata_loop (Some a) (JObject m) put_sig (int (Suc j)) s1 = Inr ((), s')"
    and h': "nheap s' = nheap s1 |` (- set (drop (2 * Suc j) as))"
    and f': "frees (trace s') = frees (trace s1) @ drop (2 * Suc j) as"
    and j2: "jheap s' = (jheap s1)(m := Some (JHashMap M'))"
    and o': "jnext s' = jnext s1" "views s' = views s1"
    and good': "no_host_failure s1 \<longrightarrow> no_host_failure s' \<and> pending s' = pending s1
            \<and> jheap s' = (jheap s1)(m := Some (JHashMap (put_all (pairs_of (drop (2 * Suc j) strs)) M1)))
            \<and> trace s' = trace s1 @ concat (map (\<lambda>(ka, va).
                  [Copied (Some ka), Copied (Some va), Freed ka, Freed va]) (pairs_of (drop (2 * Suc j) as)))"
    by blast
  have sz_gt: "int j < sint sz"
    using lt sz by linarith
  have step: "metadata_loop (Some a) (JObject m) put_sig (int j) s = Inr ((), s')"
    using loop_step[OF Suc.prems(1) _ sz_gt body] run by (simp add: add.commute)
  have das: "drop (2 * j) as = ka # va # drop (2 * Suc j) as"
    using drop2[OF lt] ka_va_def by simp
  have dstrs: "drop (2 * j) strs = strs ! (2 * j) # strs ! Suc (2 * j) # drop (2 * Suc j) strs"
    using drop2[of j strs] lt len by simp
  have heap: "nheap s' = nheap s |` (- set (drop (2 * j) as))"
    unfolding das h' h1 by (auto simp: restrict_map_def fun_eq_iff)
  have fr: "frees (trace s') = frees (trace s) @ drop (2 * j) as"
    unfolding das f' f1 by simp
  have jh: "jheap s' = (jheap s)(m := Some (JHashMap M'))"
    unfolding j2 j1 by simp
  have good: "no_host_failure s \<longrightarrow> no_host_failure s' \<and> pending s' = pending s
            \<and> jheap s' = (jheap s)(m := Some (JHashMap (put_all (pairs_of (drop (2 * j) strs)) M)))
            \<and> trace s' = trace s @ concat (map (\<lambda>(ka, va).
                  [Copied (Some ka), Copied (Some va), Freed ka, Freed va]) (pairs_of (drop (2 * j) as)))"
  proof
    assume nf: "no_host_failure s"
    with good1 have g1: "no_host_failure s1" "pending s1 = pending s"
      "jheap s1 = (jheap s)(m := Some (JHashMap (M(JString (strs ! (2 * j)) := Some (JString (strs ! Suc (2 * j)))))))"
      "trace s1 = trace s @ [Copied (Some ka), Copied (Some va), Freed ka, Freed va]"
      by auto
    from g1(3) j1 have M1: "M1 = M(JString (strs ! (2 * j)) := Some (JString (strs ! Suc (2 * j))))"
      by (metis fun_upd_same jobj.inject(2) option.inject)
    from g1(1) good' have g': "no_host_failure s'" "pending s' = pending s1"
      "jheap s' = (jheap s1)(m := Some (JHashMap (put_all (pairs_of (drop (2 * Suc j) strs)) M1)))"
      "trace s' = trace s1 @ concat (map (\<lambda>(ka, va).
                  [Copied (Some ka), Copied (Some va), Freed ka, Freed va]) (pairs_of (drop (2 * Suc j) as)))"
      by auto
    show "no_host_failure s' \<and> pending s' = pending s
            \<and> jheap s' = (jheap s)(m := Some (JHashMap (put_all (pairs_of (drop (2 * j) strs)) M)))
            \<and> trace s' = trace s @ concat (map (\<lambda>(ka, va).
                  [Copied (Some ka), Copied (Some va), Freed ka, Freed va]) (pairs_of (drop (2 * j) as)))"
      unfolding das dstrs using g1 g' M1 by (simp add: put_all_Cons)
  qed
  from step heap fr jh o1 o' good show ?case
    by auto
qed

section \<open>Stepping through the metadata entry point\<close>

lemma native_metadataD:
  assumes "native_metadata h a arr as strs"
  shows "\<exists>sz. h a = Some (MetadataStruct arr sz) \<and> 2 * sint sz = int (length as)
      \<and> length as \<le> 2 ^ 31 \<and> length strs = length as \<and> distinct as
      \<and> (\<forall>x<length as. h (as ! x) = Some (CString (strs ! x)))
      \<and> a \<notin> set as
      \<and> (case arr of None \<Rightarrow> as = []
          | Some b \<Rightarrow> b \<notin> set as \<and> b \<noteq> a
              \<and> (\<exists>ps. h b = Some (PtrArr ps) \<and> length as \<le> length ps
                    \<and> take (length as) ps = map Some as))"
proof -
  from assms obtain sz where
    ha: "h a = Some (MetadataStruct arr sz)" and sz: "2 * sint sz = int (length as)"
    and bound: "length as \<le> 2 ^ 31" and len: "length strs = length as" and dist: "distinct as"
    and cells: "map h as = map (\<lambda>str. Some (CString str)) strs"
    and arr: "case arr of None \<Rightarrow> as = []
          | Some b \<Rightarrow> (case h b of Some (PtrArr ps) \<Rightarrow> length as \<le> length ps \<and> take (length as) ps = map Some as
                      | _ \<Rightarrow> False)"
    by (auto simp: native_metadata_def split: option.splits cell.splits)
  have live: "\<forall>x<length as. h (as ! x) = Some (CString (strs ! x))"
  proof (intro allI impI)
    fix x assume x: "x < length as"
    then have "h (as ! x) = map h as ! x" by simp
    also have "\<dots> = Some (CString (strs ! x))"
      unfolding cells using x len by simp
    finally show "h (as ! x) = Some (CString (strs ! x))" .
  qed
  have str: "\<And>c. c \<in> set as \<Longrightarrow> \<exists>t. h c = Some (CString t)"
    using live by (auto simp: in_set_conv_nth)
  have na: "a \<notin> set as"
    using str ha by fastforce
  have "case arr of None \<Rightarrow> as = []
          | Some b \<Rightarrow> b \<notin> set as \<and> b \<noteq> a
              \<and> (\<exists>ps. h b = Some (PtrArr ps) \<and> length as \<le> length ps
                    \<and> take (length as) ps = map Some as)"
  proof (cases arr)
    case None
    with arr show ?thesis by simp
  next
    case (Some b)
    with arr obtain ps where hb: "h b = Some (PtrArr ps)" "length as \<le> length ps"
      "take (length as) ps = map Some as"
      by (auto split: option.splits cell.splits)
    moreover have "b \<notin> set as" using str hb(1) by fastforce
    moreover have "b \<noteq> a" using ha hb(1) by auto
    ultimately show ?thesis using Some by auto
  qed
  with ha sz bound len dist live na show ?thesis
    by blast
qed

lemma FindClass_run:
  "FindClass ''com/atlasgurus/rulestone/RuleMetadata'' s
     = Inr (Some ''com/atlasgurus/rulestone/RuleMetadata'', s)"
  "FindClass ''java/util/HashMap'' s = Inr (Some ''java/util/HashMap'', s)"
  by (simp_all add: FindClass_def host_classes_def)

lemma GetMethodID_run:
  "GetMethodID (Some ''com/atlasgurus/rulestone/RuleMetadata'') ''<init>'' ''(Ljava/util/Map;)V'' s
     = Inr (Some (''com/atlasgurus/rulestone/RuleMetadata'', ''<init>'', ''(Ljava/util/Map;)V''), s)"
  "GetMethodID (Some ''java/util/HashMap'') ''<init>'' ''()V'' s
     = Inr (Some (''java/util/HashMap'', ''<init>'', ''()V''), s)"
  "GetMethodID (Some ''java/util/HashMap'') ''put''
       ''(Ljava/lang/Object;Ljava/lang/Object;)Ljava/lang/Object;'' s
     = Inr (put_sig, s)"
  by (simp_all add: GetMethodID_def host_methods_def put_sig_def)

lemma new_object_run:
  "new_object obj s =
     Inr (if next_ok s then JObject (jnext s) else JNull,
          if next_ok s
          then s\<lparr>plan := tl (plan s), jheap := (jheap s)(jnext s := Some obj), jnext := Suc (jnext s)\<rparr>
          else s\<lparr>plan := tl (plan s), pending := True\<rparr>)"
  by (simp add: new_object_def host_alloc_eq)

lemma NewObject_HashMap_run:
  "NewObject (Some ''java/util/HashMap'') (Some (''java/util/HashMap'', ''<init>'', ''()V'')) []
     = new_object (JHashMap (\<lambda>k. None))"
  by (rule ext) (simp add: NewObject_def)

lemma NewObject_RuleMetadata_run:
  "NewObject (Some ''com/atlasgurus/rulestone/RuleMetadata'')
       (Some (''com/atlasgurus/rulestone/RuleMetadata'', ''<init>'', ''(Ljava/util/Map;)V'')) [m]
     = new_object (JRuleMetadata m)"
  by (rule ext) (simp add: NewObject_def)

lemma GetRuleMetadata_prologue:
  assumes "GetRuleMetadata lib eid rid (nheap s) = (Some a, h)"
  shows "Java_com_atlasgurus_rulestone_Rulestone_GetRuleMetadata lib eid rid s =
     (let hashMap = (if next_ok s then JObject (jnext s) else JNull);
          s1 = (if next_ok s
                then s\<lparr>nheap := h, plan := tl (plan s),
                       jheap := (jheap s)(jnext s := Some (JHashMap (\<lambda>k. None))), jnext := Suc (jnext s)\<rparr>
                else s\<lparr>nheap := h, plan := tl (plan s), pending := True\<rparr>)
      in seq (metadata_loop (Some a) hashMap put_sig 0) (\<lambda>_.
         seq (Metadata_metadata (Some a)) (\<lambda>arr.
         seq (free arr) (\<lambda>_.
         new_object (JRuleMetadata hashMap)))) s1)"
  using assms
  by (simp add: Java_com_atlasgurus_rulestone_Rulestone_GetRuleMetadata_def seq_def[of "call_native _"]
      seq_def[of "FindClass _"] seq_def[of "GetMethodID _ _ _"] seq_def[of "new_object _"]
      call_native_def FindClass_run GetMethodID_run NewObject_HashMap_run NewObject_RuleMetadata_run
      new_object_run next_ok_def Let_def)


lemma GetRuleMetadata_run:
  assumes nat: "GetRuleMetadata lib eid rid (nheap s) = (Some a, h)"
    and wf: "native_metadata h a arr as strs"
    and ok: "next_ok s"
  shows "\<exists>r s'. Java_com_atlasgurus_rulestone_Rulestone_GetRuleMetadata lib eid rid s = Inr (r, s')
      \<and> nheap s' = h |` (- set (as @ addrs_of arr))
      \<and> frees (trace s') = frees (trace s) @ as @ addrs_of arr
      \<and> views s' = views s
      \<and> (no_host_failure s \<longrightarrow> r = JObject (Suc (jnext s))
            \<and> jheap s' = (jheap s)(jnext s := Some (JHashMap (put_all (pairs_of strs) (\<lambda>k. None))),
                  Suc (jnext s) := Some (JRuleMetadata (JObject (jnext s))))
            \<and> pending s' = pending s
            \<and> trace s' = trace s @ concat (map (\<lambda>(ka, va).
                  [Copied (Some ka), Copied (Some va), Freed ka, Freed va]) (pairs_of as))
                  @ map Freed (addrs_of arr))"
proof -
  from native_metadataD[OF wf] obtain sz where
    ha: "h a = Some (MetadataStruct arr sz)" and sz: "2 * sint sz = int (length as)"
    and bound: "length as \<le> 2 ^ 31" and len: "length strs = length as" and dist: "distinct as"
    and live: "\<forall>x<length as. h (as ! x) = Some (CString (strs ! x))"
    and na: "a \<notin> set as"
    and arr: "case arr of None \<Rightarrow> as = []
          | Some b \<Rightarrow> b \<notin> set as \<and> b \<noteq> a
              \<and> (\<exists>ps. h b = Some (PtrArr ps) \<and> length as \<le> length ps
                    \<and> take (length as) ps = map Some as)"
    by blast
  define m where "m = jnext s"
  define s1 where "s1 = s\<lparr>nheap := h, plan := tl (plan s),
      jheap := (jheap s)(m := Some (JHashMap (\<lambda>k. None))), jnext := Suc m\<rparr>"
  have pro: "Java_com_atlasgurus_rulestone_Rulestone_GetRuleMetadata lib eid rid s =
       seq (metadata_loop (Some a) (JObject m) put_sig 0) (\<lambda>_.
         seq (Metadata_metadata (Some a)) (\<lambda>arr.
         seq (free arr) (\<lambda>_.
         new_object (JRuleMetadata (JObject m))))) s1"
    using GetRuleMetadata_prologue[OF nat] ok by (simp add: s1_def m_def Let_def)
  have s1: "nheap s1 = h" "jheap s1 m = Some (JHashMap (\<lambda>k. None))" "trace s1 = trace s"
    "views s1 = views s" "jnext s1 = Suc m" "pending s1 = pending s"
    "jheap s1 = (jheap s)(m := Some (JHashMap (\<lambda>k. None)))"
    by (simp_all add: s1_def)
  have nf1: "no_host_failure s \<Longrightarrow> no_host_failure s1"
    by (cases "plan s") (auto simp: no_host_failure_def s1_def)
  have loop: "\<exists>s2. metadata_loop (Some a) (JObject m) put_sig 0 s1 = Inr ((), s2)
      \<and> nheap s2 = h |` (- set as)
      \<and> frees (trace s2) = frees (trace s) @ as
      \<and> (\<exists>M'. jheap s2 = (jheap s1)(m := Some (JHashMap M')))
      \<and> jnext s2 = Suc m \<and> views s2 = views s
      \<and> (no_host_failure s \<longrightarrow> no_host_failure s2 \<and> pending s2 = pending s
            \<and> jheap s2 = (jheap s1)(m := Some (JHashMap (put_all (pairs_of strs) (\<lambda>k. None))))
            \<and> trace s2 = trace s @ concat (map (\<lambda>(ka, va).
                  [Copied (Some ka), Copied (Some va), Freed ka, Freed va]) (pairs_of as)))"
  proof (cases arr)
    case None
    with arr have e: "as = []" by simp
    with sz have "sint sz \<le> 0" by simp
    then have "metadata_loop (Some a) (JObject m) put_sig 0 s1 = Inr ((), s1)"
      using loop_exit[of s1 a arr sz 0] ha s1(1) by simp
    moreover have "jheap s1 = (jheap s1)(m := Some (JHashMap (\<lambda>k. None)))"
      using s1(2) by auto
    ultimately show ?thesis
      using e len s1 nf1
      by (intro exI[of _ s1] conjI exI[of _ "\<lambda>k. None"] impI)
         (simp_all add: put_all_def restrict_map_def)
  next
    case (Some b)
    with arr obtain ps where hb: "h b = Some (PtrArr ps)" "length as \<le> length ps"
      "take (length as) ps = map Some as"
      by auto
    have live1: "\<forall>x. 2 * 0 \<le> x \<and> x < length as \<longrightarrow> nheap s1 (as ! x) = Some (CString (strs ! x))"
      using live s1(1) by simp
    from loop_run[of s1 a b sz ps as strs 0 m "\<lambda>k. None"] ha hb sz bound dist len live1 s1 Some
    show ?thesis
      using nf1 by auto
  qed
  then obtain s2 M' where
    run2: "metadata_loop (Some a) (JObject m) put_sig 0 s1 = Inr ((), s2)"
    and h2: "nheap s2 = h |` (- set as)"
    and f2: "frees (trace s2) = frees (trace s) @ as"
    and j2: "jheap s2 = (jheap s1)(m := Some (JHashMap M'))"
    and o2: "jnext s2 = Suc m" "views s2 = views s"
    and good2: "no_host_failure s \<longrightarrow> no_host_failure s2 \<and> pending s2 = pending s
            \<and> jheap s2 = (jheap s1)(m := Some (JHashMap (put_all (pairs_of strs) (\<lambda>k. None))))
            \<and> trace s2 = trace s @ concat (map (\<lambda>(ka, va).
                  [Copied (Some ka), Copied (Some va), Freed ka, Freed va]) (pairs_of as))"
    by blast
  have ha2: "nheap s2 a = Some (MetadataStruct arr sz)"
    using h2 ha na by (simp add: restrict_map_def)
  define s3 where "s3 = (case arr of None \<Rightarrow> s2
     | Some b \<Rightarrow> s2\<lparr>nheap := (nheap s2)(b := None), trace := trace s2 @ [Freed b]\<rparr>)"
  have fr: "free arr s2 = Inr ((), s3)"
  proof (cases arr)
    case None
    then show ?thesis by (simp add: free_def s3_def)
  next
    case (Some b)
    with arr obtain ps where "h b = Some (PtrArr ps)" "b \<notin> set as" by auto
    then have "nheap s2 b = Some (PtrArr ps)"
      using h2 by (simp add: restrict_map_def)
    then show ?thesis
      using Some by (simp add: free_run s3_def)
  qed
  have h3: "nheap s3 = h |` (- set (as @ addrs_of arr))"
    using h2 by (cases arr) (auto simp: s3_def restrict_map_def fun_eq_iff)
  have f3: "frees (trace s3) = frees (trace s) @ as @ addrs_of arr"
    using f2 by (cases arr) (auto simp: s3_def frees_append)
  have o3: "views s3 = views s" "jheap s3 = jheap s2" "jnext s3 = Suc m" "plan s3 = plan s2"
    "pending s3 = pending s2" "trace s3 = trace s2 @ map Freed (addrs_of arr)"
    using o2 by (cases arr; simp add: s3_def)+
  have fin: "Java_com_atlasgurus_rulestone_Rulestone_GetRuleMetadata lib eid rid s
      = new_object (JRuleMetadata (JObject m)) s3"
    unfolding pro using run2 fr ha2
    by (simp add: seq_def Metadata_metadata_run)
  show ?thesis
  proof (cases "next_ok s3")
    case True
    let ?s' = "s3\<lparr>plan := tl (plan s3), jheap := (jheap s3)(jnext s3 := Some (JRuleMetadata (JObject m))),
        jnext := Suc (jnext s3)\<rparr>"
    have "Java_com_atlasgurus_rulestone_Rulestone_GetRuleMetadata lib eid rid s
        = Inr (JObject (jnext s3), ?s')"
      unfolding fin using True by (simp add: new_object_run)
    moreover have "no_host_failure s \<longrightarrow> JObject (jnext s3) = JObject (Suc (jnext s))
            \<and> jheap ?s' = (jheap s)(jnext s := Some (JHashMap (put_all (pairs_of strs) (\<lambda>k. None))),
                  Suc (jnext s) := Some (JRuleMetadata (JObject (jnext s))))
            \<and> pending ?s' = pending s
            \<and> trace ?s' = trace s @ concat (map (\<lambda>(ka, va).
                  [Copied (Some ka), Copied (Some va), Freed ka, Freed va]) (pairs_of as))
                  @ map Freed (addrs_of arr)"
      using good2 o3 s1(7) by (auto simp: m_def)
    ultimately show ?thesis
      using h3 f3 o3(1,3) by (intro exI[of _ "JObject (jnext s3)"] exI[of _ ?s']) (auto simp: m_def)
  next
    case False
    let ?s' = "s3\<lparr>plan := tl (plan s3), pending := True\<rparr>"
    have "Java_com_atlasgurus_rulestone_Rulestone_GetRuleMetadata lib eid rid s = Inr (JNull, ?s')"
      unfolding fin using False by (simp add: new_object_run)
    moreover have "\<not> no_host_failure s"
      using False good2 o3(4) no_host_failure_next[of s3]
      by (auto simp: no_host_failure_def)
    ultimately show ?thesis
      using h3 f3 o3(1) by (intro exI[of _ JNull] exI[of _ ?s']) simp
  qed
qed









section \<open>The engine double\<close>

lemma double_rule7:
  "GetRuleMetadata engine_double eid 7 (nheap (fresh p)) = (Some 20, heap7)"
  "native_metadata heap7 20 (Some 21) [22, 23] [''severity'', ''high'']"
  "heap7 20 = Some (MetadataStruct (Some 21) 1)"
  by (simp_all add: engine_double_def fresh_def heap7_def native_metadata_def)

lemma double_rule8:
  "GetRuleMetadata engine_double eid 8 (nheap (fresh p)) = (Some 30, heap8)"
  "native_metadata heap8 30 (Some 31) [] []"
  by (simp_all add: engine_double_def fresh_def heap8_def native_metadata_def)


lemma double_rule99:
  "GetRuleMetadata engine_double eid 99 (nheap (fresh p)) = (None, \<lambda>a. None)"
  by (simp add: engine_double_def fresh_def)

lemma fresh_fields:
  "jnext (fresh p) = 0" "trace (fresh p) = []" "pending (fresh p) = False"
  "no_host_failure (fresh [])" "next_ok (fresh [])" "next_ok (fresh (True # p))"
  "nheap (fresh p) = (\<lambda>a. None)"
  by (simp_all add: fresh_def no_host_failure_def next_ok_def)

section \<open>Characters and the second double\<close>








section \<open>Engine creation\<close>

text \<open>
  C6.  For every input string, whatever the engine and the state of the host, the
  creation entry point returns the very handle that the native primitive
  \<open>NewRuleEngine\<close> returned for the view of the string (any failure sentinel
  included: the handle is not inspected), and on return the view obtained from
  \<open>GetStringUTFChars\<close> has been released: the outstanding views are those from before
  the call.  Nothing else of the host changes and nothing is freed.
\<close>
theorem create_returns_native_handle:
  "\<exists>s'. Java_com_atlasgurus_rulestone_Rulestone_NewRuleEngine lib (JString str) s
            = Inr (fst (NewRuleEngine lib (if next_ok s then Some str else None) (nheap s)), s')
        \<and> views s' = views s
        \<and> nheap s' = snd (NewRuleEngine lib (if next_ok s then Some str else None) (nheap s))
        \<and> jheap s' = jheap s \<and> trace s' = trace s"
  by (simp add: Java_com_atlasgurus_rulestone_Rulestone_NewRuleEngine_def seq_def ret_def
      GetStringUTFChars_def host_alloc_eq call_native_def ReleaseStringUTFChars_def
      split: prod.splits)

theorem create_returns_native_handle_witness:
  "\<exists>s'. Java_com_atlasgurus_rulestone_Rulestone_NewRuleEngine engine_double
            (JString ''missing.yaml'') (fresh []) = Inr (- 1, s')
        \<and> views s' = []"
proof -
  have "fst (NewRuleEngine engine_double
          (if next_ok (fresh []) then Some ''missing.yaml'' else None) (nheap (fresh []))) = - 1"
    by (simp add: engine_double_def fresh_def next_ok_def)
  moreover have "views (fresh []) = []"
    by (simp add: fresh_def)
  ultimately show ?thesis
    using create_returns_native_handle [of engine_double "''missing.yaml''" "fresh []"]
    by auto
qed

section \<open>Matching\<close>

text \<open>
  C3.  When the host does not fail and the native match-set has the count \<open>n\<close> and a
  buffer \<open>xs\<close> of at least \<open>n\<close> identifiers, the match entry point returns a new
  array of the host whose length is exactly \<open>n\<close> and whose element at every index
  \<open>i < n\<close> is the identifier \<open>xs ! i\<close> of the native buffer; no exception is left
  pending.
\<close>
theorem match_returns_exact_array:
  assumes "no_host_failure s"
    and "Match lib rule_engine_id (Some str) (nheap s) = (Some a, h)"
    and "h a = Some (MatchesStruct (Some b) len)"
    and "h b = Some (IntArr xs)"
    and "sint len = int n" and "n \<le> length xs"
  shows "\<exists>s' ys. Java_com_atlasgurus_rulestone_Rulestone_Match lib rule_engine_id (JString str) s
           = Inr (JObject (jnext s), s')
       \<and> jheap s' (jnext s) = Some (JIntArray ys) \<and> length ys = n \<and> (\<forall>i<n. ys ! i = xs ! i)
       \<and> pending s' = pending s"
proof -
  have wf: "native_matches h a (Some b) (take n xs)"
    using assms(3-6) by (simp add: native_matches_def)
  have nat: "Match lib rule_engine_id (if next_ok s then Some str else None) (nheap s) = (Some a, h)"
    using assms(1,2) by (simp add: no_host_failure_next)
  from Match_run[OF nat wf no_host_failure_nth[OF assms(1)]] assms(1,6)
  show ?thesis
    by (auto simp: no_host_failure_next)
qed

theorem match_returns_exact_array_witness:
  "\<exists>s'. Java_com_atlasgurus_rulestone_Rulestone_Match engine_double 0 (JString ''input'') (fresh [])
           = Inr (JObject 0, s')
       \<and> jheap s' 0 = Some (JIntArray [7])"
proof -
  let ?h = "(\<lambda>a::addr. None)(10 := Some (MatchesStruct (Some 11) 1), 11 := Some (IntArr [7]))"
  have 1: "no_host_failure (fresh [])"
    by (simp add: no_host_failure_def fresh_def)
  have 2: "Match engine_double 0 (Some ''input'') (nheap (fresh [])) = (Some 10, ?h)"
    by (simp add: engine_double_def fresh_def)
  have 3: "?h 10 = Some (MatchesStruct (Some 11) 1)" and 4: "?h 11 = Some (IntArr [7])"
    by simp_all
  have 5: "sint (1 :: cint) = int 1" and 6: "1 \<le> length [7 :: cint]"
    by simp_all
  from match_returns_exact_array [OF 1 2 3 4 5 6]
  obtain s' ys where
    run: "Java_com_atlasgurus_rulestone_Rulestone_Match engine_double 0 (JString ''input'') (fresh [])
           = Inr (JObject (jnext (fresh [])), s')"
    and ys: "jheap s' (jnext (fresh [])) = Some (JIntArray ys)" "length ys = 1" "\<forall>i<1. ys ! i = [7] ! i"
    by blast
  have "ys = [7]"
    using ys(2,3) by (cases ys) auto
  moreover have "jnext (fresh []) = 0"
    by (simp add: fresh_def)
  ultimately show ?thesis using run ys(1) by auto
qed

text \<open>
  C7.  When the host does not fail and the native match-set has the count zero (with an
  empty buffer or with no buffer at all), the match entry point returns a reference
  to a new, empty array of the host, never \<open>NULL\<close>.
\<close>
theorem empty_match_set_gives_empty_array:
  assumes "no_host_failure s"
    and "Match lib rule_engine_id (Some str) (nheap s) = (Some a, h)"
    and "native_matches h a buf []"
  shows "\<exists>r s'. Java_com_atlasgurus_rulestone_Rulestone_Match lib rule_engine_id (JString str) s
           = Inr (r, s')
       \<and> r \<noteq> JNull \<and> r = JObject (jnext s) \<and> jheap s' (jnext s) = Some (JIntArray [])
       \<and> pending s' = pending s"
proof -
  have nat: "Match lib rule_engine_id (if next_ok s then Some str else None) (nheap s) = (Some a, h)"
    using assms(1,2) by (simp add: no_host_failure_next)
  from Match_run[OF nat assms(3) no_host_failure_nth[OF assms(1)]] assms(1)
  show ?thesis
    by (auto simp: no_host_failure_next)
qed

theorem empty_match_set_gives_empty_array_witness:
  "\<exists>s'. Java_com_atlasgurus_rulestone_Rulestone_Match engine_double 1 (JString ''input'') (fresh [])
           = Inr (JObject 0, s')
       \<and> jheap s' 0 = Some (JIntArray [])"
proof -
  let ?h = "(\<lambda>a::addr. None)(10 := Some (MatchesStruct (Some 11) 0), 11 := Some (IntArr []))"
  have 1: "no_host_failure (fresh [])"
    by (simp add: no_host_failure_def fresh_def)
  have 2: "Match engine_double 1 (Some ''input'') (nheap (fresh [])) = (Some 10, ?h)"
    by (simp add: engine_double_def fresh_def)
  have 3: "native_matches ?h 10 (Some 11) []"
    by (simp add: native_matches_def)
  have "jnext (fresh []) = 0"
    by (simp add: fresh_def)
  with empty_match_set_gives_empty_array [OF 1 2 3] show ?thesis
    by auto
qed

text \<open>
  C8.  For a well-formed native match-set the match entry point returns whenever the
  host provides the array (its second allocation, after the view of the input), and
  whenever it returns, what it did to the native allocations is exactly this, in this
  order: the copy of the buffer into the array of the host, then one \<open>free\<close> of the
  buffer, then one \<open>free\<close> of the header.  The two are different allocations, and
  neither is live any more on return.
\<close>
theorem match_frees_after_copy_once:
  assumes "Match lib rule_engine_id (if next_ok s then Some str else None) (nheap s) = (Some a, h)"
    and "native_matches h a buf ids"
  shows "(nth_ok 1 s \<longrightarrow>
            (\<exists>r s'. Java_com_atlasgurus_rulestone_Rulestone_Match lib rule_engine_id (JString str) s
               = Inr (r, s')))
       \<and> (\<forall>r s'. Java_com_atlasgurus_rulestone_Rulestone_Match lib rule_engine_id (JString str) s
               = Inr (r, s') \<longrightarrow>
            trace s' = trace s @ Copied buf # map Freed (addrs_of buf @ [a])
          \<and> distinct (addrs_of buf @ [a])
          \<and> nheap s' = h |` (- set (addrs_of buf @ [a])))"
proof (intro conjI allI impI)
  assume "nth_ok 1 s"
  from Match_run[OF assms this]
  show "\<exists>r s'. Java_com_atlasgurus_rulestone_Rulestone_Match lib rule_engine_id (JString str) s
               = Inr (r, s')"
    by blast
next
  fix r s'
  assume run: "Java_com_atlasgurus_rulestone_Rulestone_Match lib rule_engine_id (JString str) s
               = Inr (r, s')"
  from Match_Inr_D[OF run assms(1)] have ok: "nth_ok 1 s"
    by auto
  from Match_run[OF assms ok] run
  show "trace s' = trace s @ Copied buf # map Freed (addrs_of buf @ [a])"
    and "nheap s' = h |` (- set (addrs_of buf @ [a]))"
    by auto
  from native_matchesD[OF assms(2)] show "distinct (addrs_of buf @ [a])"
    by (cases buf) auto
qed

theorem match_frees_after_copy_once_witness:
  "\<exists>s'. Java_com_atlasgurus_rulestone_Rulestone_Match engine_double 0 (JString ''input'') (fresh [])
           = Inr (JObject 0, s')
       \<and> trace s' = [Copied (Some 11), Freed 11, Freed 10]
       \<and> nheap s' 10 = None \<and> nheap s' 11 = None"
proof -
  let ?h = "(\<lambda>a::addr. None)(10 := Some (MatchesStruct (Some 11) 1), 11 := Some (IntArr [7]))"
  have 1: "Match engine_double 0 (if next_ok (fresh []) then Some ''input'' else None) (nheap (fresh [])) = (Some 10, ?h)"
    by (simp add: engine_double_def fresh_def)
  have 2: "native_matches ?h 10 (Some 11) [7]"
    by (simp add: native_matches_def)
  have 3: "nth_ok 1 (fresh [])"
    by (simp add: nth_ok_def fresh_def)
  have 4: "trace (fresh []) = []" "jnext (fresh []) = 0"
    by (simp_all add: fresh_def)
  from match_frees_after_copy_once [OF 1 2] 3 4 Match_run[OF 1 2 3]
  show ?thesis
    by (auto simp: restrict_map_def)
qed

text \<open>
  C10.  The match entry point dereferences the result of the native \<open>Match\<close> without a
  check: for a \<open>NULL\<close> result it runs into a null dereference, whereas the metadata
  entry point returns \<open>NULL\<close> for a \<open>NULL\<close> result of \<open>GetRuleMetadata\<close>.  The match
  entry point returns only if the native result is the address of a live header with
  a count that is not negative and, for a positive count, a live buffer of at least
  that many identifiers; for a well-formed match-set it does return once the host
  provides the array.
\<close>
theorem match_unguarded_metadata_guarded:
  "(Match lib rule_engine_id (if next_ok s then Some str else None) (nheap s) = (None, h) \<longrightarrow>
      Java_com_atlasgurus_rulestone_Rulestone_Match lib rule_engine_id (JString str) s
        = Inl NullDereference)
   \<and> (GetRuleMetadata lib rule_engine_id rule_id (nheap s) = (None, h) \<longrightarrow>
      Java_com_atlasgurus_rulestone_Rulestone_GetRuleMetadata lib rule_engine_id rule_id s
        = Inr (JNull, s\<lparr>nheap := h\<rparr>))
   \<and> (Match lib rule_engine_id (if next_ok s then Some str else None) (nheap s) = (p, h)
       \<and> Java_com_atlasgurus_rulestone_Rulestone_Match lib rule_engine_id (JString str) s
            = Inr (r, s') \<longrightarrow>
       (\<exists>a buf len. p = Some a \<and> h a = Some (MatchesStruct buf len) \<and> 0 \<le> sint len
          \<and> (0 < sint len \<longrightarrow>
               (\<exists>b xs. buf = Some b \<and> h b = Some (IntArr xs) \<and> nat (sint len) \<le> length xs))))
   \<and> (Match lib rule_engine_id (if next_ok s then Some str else None) (nheap s) = (Some a, h)
       \<and> native_matches h a buf ids \<and> nth_ok 1 s \<longrightarrow>
       (\<exists>r s'. Java_com_atlasgurus_rulestone_Rulestone_Match lib rule_engine_id (JString str) s
            = Inr (r, s')))"
proof (intro conjI impI)
  assume "Match lib rule_engine_id (if next_ok s then Some str else None) (nheap s) = (None, h)"
  then show "Java_com_atlasgurus_rulestone_Rulestone_Match lib rule_engine_id (JString str) s
        = Inl NullDereference"
    by (rule Match_null)
next
  assume "GetRuleMetadata lib rule_engine_id rule_id (nheap s) = (None, h)"
  then show "Java_com_atlasgurus_rulestone_Rulestone_GetRuleMetadata lib rule_engine_id rule_id s
        = Inr (JNull, s\<lparr>nheap := h\<rparr>)"
    by (simp add: Java_com_atlasgurus_rulestone_Rulestone_GetRuleMetadata_def seq_def
        call_native_def ret_def)
next
  assume "Match lib rule_engine_id (if next_ok s then Some str else None) (nheap s) = (p, h)
       \<and> Java_com_atlasgurus_rulestone_Rulestone_Match lib rule_engine_id (JString str) s
            = Inr (r, s')"
  then show "\<exists>a buf len. p = Some a \<and> h a = Some (MatchesStruct buf len) \<and> 0 \<le> sint len
          \<and> (0 < sint len \<longrightarrow>
               (\<exists>b xs. buf = Some b \<and> h b = Some (IntArr xs) \<and> nat (sint len) \<le> length xs))"
    using Match_Inr_D[of lib rule_engine_id str s r s' p h] by blast
next
  assume "Match lib rule_engine_id (if next_ok s then Some str else None) (nheap s) = (Some a, h)
       \<and> native_matches h a buf ids \<and> nth_ok 1 s"
  then show "\<exists>r s'. Java_com_atlasgurus_rulestone_Rulestone_Match lib rule_engine_id (JString str) s
            = Inr (r, s')"
    using Match_run[of lib rule_engine_id s str a h buf ids] by blast
qed

theorem match_unguarded_metadata_guarded_witness:
  "Java_com_atlasgurus_rulestone_Rulestone_Match engine_double 2 (JString ''input'') (fresh [])
      = Inl NullDereference
   \<and> Java_com_atlasgurus_rulestone_Rulestone_GetRuleMetadata engine_double 0 99 (fresh [])
      = Inr (JNull, fresh [])"
proof -
  have 1: "Match engine_double 2 (if next_ok (fresh []) then Some ''input'' else None) (nheap (fresh []))
      = (None, \<lambda>a. None)"
    by (simp add: engine_double_def fresh_def)
  have 2: "GetRuleMetadata engine_double 0 99 (nheap (fresh [])) = (None, \<lambda>a. None)"
    by (simp add: engine_double_def fresh_def)
  have 3: "(fresh [])\<lparr>nheap := \<lambda>a. None\<rparr> = fresh []"
    by (simp add: fresh_def)
  from match_unguarded_metadata_guarded [where lib = engine_double and rule_engine_id = 2
      and s = "fresh []" and str = "''input''" and h = "\<lambda>a. None"] 1
  have "Java_com_atlasgurus_rulestone_Rulestone_Match engine_double 2 (JString ''input'') (fresh [])
      = Inl NullDereference"
    by blast
  moreover
  from match_unguarded_metadata_guarded [where lib = engine_double and rule_engine_id = 0
      and rule_id = 99 and s = "fresh []" and h = "\<lambda>a. None"] 2 3
  have "Java_com_atlasgurus_rulestone_Rulestone_GetRuleMetadata engine_double 0 99 (fresh [])
      = Inr (JNull, fresh [])"
    by simp
  ultimately show ?thesis
    by simp
qed

section \<open>Rule metadata\<close>

text \<open>
  C2.  When the native \<open>GetRuleMetadata\<close> returns \<open>NULL\<close>, the metadata entry point
  returns \<open>NULL\<close> to the host and the state is the one the native call left: no host
  object was created, no outcome of the allocation plan was used, nothing was copied
  or freed.  When the native result is metadata without pairs (and the host does not
  fail), the result is a reference to a new \<open>RuleMetadata\<close> object that holds an empty
  map, hence different from \<open>NULL\<close>.
\<close>
theorem absent_metadata_returns_null:
  "(GetRuleMetadata lib rule_engine_id rule_id (nheap s) = (None, h) \<longrightarrow>
      Java_com_atlasgurus_rulestone_Rulestone_GetRuleMetadata lib rule_engine_id rule_id s
        = Inr (JNull, s\<lparr>nheap := h\<rparr>))
   \<and> (no_host_failure s \<and> GetRuleMetadata lib rule_engine_id rule_id (nheap s) = (Some a, h)
        \<and> native_metadata h a arr [] [] \<longrightarrow>
      (\<exists>r s'. Java_com_atlasgurus_rulestone_Rulestone_GetRuleMetadata lib rule_engine_id rule_id s
          = Inr (r, s')
        \<and> r \<noteq> JNull \<and> r = JObject (Suc (jnext s))
        \<and> jheap s' (Suc (jnext s)) = Some (JRuleMetadata (JObject (jnext s)))
        \<and> jheap s' (jnext s) = Some (JHashMap (\<lambda>k. None))))"
proof (intro conjI impI)
  assume "GetRuleMetadata lib rule_engine_id rule_id (nheap s) = (None, h)"
  then show "Java_com_atlasgurus_rulestone_Rulestone_GetRuleMetadata lib rule_engine_id rule_id s
        = Inr (JNull, s\<lparr>nheap := h\<rparr>)"
    by (simp add: Java_com_atlasgurus_rulestone_Rulestone_GetRuleMetadata_def seq_def
        call_native_def ret_def)
next
  assume a: "no_host_failure s \<and> GetRuleMetadata lib rule_engine_id rule_id (nheap s) = (Some a, h)
        \<and> native_metadata h a arr [] []"
  then have "next_ok s" by (simp add: no_host_failure_next)
  from GetRuleMetadata_run[OF _ _ this, of lib rule_engine_id rule_id a h arr "[]" "[]"] a
  show "\<exists>r s'. Java_com_atlasgurus_rulestone_Rulestone_GetRuleMetadata lib rule_engine_id rule_id s
          = Inr (r, s')
        \<and> r \<noteq> JNull \<and> r = JObject (Suc (jnext s))
        \<and> jheap s' (Suc (jnext s)) = Some (JRuleMetadata (JObject (jnext s)))
        \<and> jheap s' (jnext s) = Some (JHashMap (\<lambda>k. None))"
    by (auto simp: put_all_def)
qed

theorem absent_metadata_returns_null_witness:
  "Java_com_atlasgurus_rulestone_Rulestone_GetRuleMetadata engine_double 0 99 (fresh [])
      = Inr (JNull, fresh [])
   \<and> (\<exists>s'. Java_com_atlasgurus_rulestone_Rulestone_GetRuleMetadata engine_double 0 8 (fresh [])
          = Inr (JObject 1, s')
        \<and> jheap s' 0 = Some (JHashMap (\<lambda>k. None)))"
proof -
  have e: "(fresh [])\<lparr>nheap := \<lambda>a. None\<rparr> = fresh []"
    by (simp add: fresh_def)
  from absent_metadata_returns_null [where lib = engine_double and rule_engine_id = 0 and rule_id = 99
      and s = "fresh []" and h = "\<lambda>a. None"] double_rule99 e
  have "Java_com_atlasgurus_rulestone_Rulestone_GetRuleMetadata engine_double 0 99 (fresh [])
      = Inr (JNull, fresh [])"
    by simp
  moreover
  from absent_metadata_returns_null [where lib = engine_double and rule_engine_id = 0 and rule_id = 8
      and s = "fresh []" and h = heap8 and a = 30 and arr = "Some 31"]
    double_rule8 fresh_fields(4)
  have "\<exists>s'. Java_com_atlasgurus_rulestone_Rulestone_GetRuleMetadata engine_double 0 8 (fresh [])
          = Inr (JObject 1, s')
        \<and> jheap s' 0 = Some (JHashMap (\<lambda>k. None))"
    by (auto simp: fresh_fields)
  ultimately show ?thesis
    by simp
qed







text \<open>
  What the run below shows for one input holds for every well-formed native result:
  the \<open>Metadata\<close> struct is live on return and is not among the allocations freed.
\<close>
lemma metadata_header_never_freed:
  assumes "GetRuleMetadata lib rule_engine_id rule_id (nheap s) = (Some a, h)"
    and "native_metadata h a arr as strs"
    and "next_ok s"
  shows "\<exists>r s'. Java_com_atlasgurus_rulestone_Rulestone_GetRuleMetadata lib rule_engine_id rule_id s
           = Inr (r, s')
       \<and> nheap s' a = h a \<and> h a \<noteq> None
       \<and> frees (trace s') = frees (trace s) @ as @ addrs_of arr
       \<and> a \<notin> set (as @ addrs_of arr)"
proof -
  from native_metadataD[OF assms(2)]
  have "h a \<noteq> None" and na: "a \<notin> set (as @ addrs_of arr)"
    by (cases arr; auto)+
  moreover from GetRuleMetadata_run[OF assms]
  obtain r s' where "Java_com_atlasgurus_rulestone_Rulestone_GetRuleMetadata lib rule_engine_id rule_id s
           = Inr (r, s')"
    and "nheap s' = h |` (- set (as @ addrs_of arr))"
    and "frees (trace s') = frees (trace s) @ as @ addrs_of arr"
    by blast
  ultimately show ?thesis
    by (auto simp: restrict_map_def)
qed

text \<open>
  C1.  The claim is that every native allocation handed to the adapter is freed before
  the call returns.  The run below retrieves the metadata of rule 7 from the double,
  starting from empty heaps: the engine allocates the \<open>Metadata\<close> struct at 20, the
  array at 21 and two strings at 22 and 23.  The entry point frees 22, 23 and 21
  (\<open>metadata->metadata\<close>), and returns while the struct at 20, which was not allocated
  before the call, is still allocated: \<open>free(metadata)\<close> is never called, unlike
  \<open>free(matches)\<close> in the match entry point.
\<close>
theorem metadata_header_outlives_call:
  "\<exists>r s'. Java_com_atlasgurus_rulestone_Rulestone_GetRuleMetadata engine_double 0 7 (fresh [])
              = Inr (r, s')
         \<and> nheap (fresh []) 20 = None
         \<and> nheap s' 20 = Some (MetadataStruct (Some 21) 1)
         \<and> trace s' = [Copied (Some 22), Copied (Some 23), Freed 22, Freed 23, Freed 21]"
  using GetRuleMetadata_run [where lib = engine_double and eid = 0 and rid = 7 and s = "fresh []",
      OF double_rule7(1,2)]
  by (auto simp: fresh_fields restrict_map_def double_rule7(3))

end
